theory Spec2Isabelle
  imports Main
begin

section \<open>Python strings\<close>

text \<open>
  A Python \<^verbatim>\<open>str\<close> is a sequence of Unicode code points. A code point is modelled as a
  natural number and a string as the list of its code points, so that the theorems below
  hold for every string Python can build, not only for ASCII text. \<open>py\<close> turns a literal
  of the theory into such a string.
\<close>

type_synonym codepoint = nat
type_synonym pystr = "codepoint list"

definition py :: "string \<Rightarrow> pystr" where
  "py s = map of_char s"

abbreviation DOT :: codepoint where "DOT \<equiv> 46"
abbreviation COLON :: codepoint where "COLON \<equiv> 58"
abbreviation LF :: codepoint where "LF \<equiv> 10"
abbreviation CR :: codepoint where "CR \<equiv> 13"

text \<open>
  The line boundaries of \<^verbatim>\<open>str.splitlines\<close>: LF, VT, FF, CR, FS, GS, RS, NEL, LS and PS.
\<close>

definition is_linebreak :: "codepoint \<Rightarrow> bool" where
  "is_linebreak c = (c \<in> set [10, 11, 12, 13, 28, 29, 30, 133, 8232, 8233])"

text \<open>
  The white space of \<^verbatim>\<open>str.strip()\<close> and \<^verbatim>\<open>str.isspace\<close>: TAB to CR, FS to US, the space,
  NEL, NBSP, U+1680, U+2000 to U+200A, LS, PS, U+202F, U+205F and U+3000.
\<close>

definition is_space :: "codepoint \<Rightarrow> bool" where
  "is_space c = ((9 \<le> c \<and> c \<le> 13) \<or> (28 \<le> c \<and> c \<le> 32) \<or> c = 133 \<or> c = 160 \<or> c = 5760
     \<or> (8192 \<le> c \<and> c \<le> 8202) \<or> c = 8232 \<or> c = 8233 \<or> c = 8239 \<or> c = 8287 \<or> c = 12288)"

text \<open>\<^verbatim>\<open>s.strip()\<close>: white space removed at both ends.\<close>

definition strip :: "pystr \<Rightarrow> pystr" where
  "strip s = rev (dropWhile is_space (rev (dropWhile is_space s)))"

text \<open>\<^verbatim>\<open>s.lstrip(chars)\<close>: the longest prefix made of characters of \<open>chars\<close> removed.\<close>

definition lstrip :: "pystr \<Rightarrow> pystr \<Rightarrow> pystr" where
  "lstrip chars s = dropWhile (\<lambda>c. c \<in> set chars) s"

text \<open>
  \<^verbatim>\<open>s.split(sep, 1)\<close> for a separator of one character: a list of two strings, the text
  before the first separator and the text after it, or the list holding \<open>s\<close> alone when
  the separator does not occur.
\<close>

definition split1 :: "codepoint \<Rightarrow> pystr \<Rightarrow> pystr list" where
  "split1 sep s =
     (if sep \<in> set s
      then [takeWhile (\<lambda>c. c \<noteq> sep) s, tl (dropWhile (\<lambda>c. c \<noteq> sep) s)]
      else [s])"

text \<open>
  \<^verbatim>\<open>s.splitlines()\<close>: the text up to the next line boundary is a line, the boundary is
  dropped (CR LF counting as one boundary), and nothing follows the last boundary, so the
  empty string has no line at all.
\<close>

function splitlines :: "pystr \<Rightarrow> pystr list" where
  "splitlines s =
     (if s = [] then []
      else takeWhile (\<lambda>c. \<not> is_linebreak c) s #
           splitlines (case dropWhile (\<lambda>c. \<not> is_linebreak c) s of
                         [] \<Rightarrow> []
                       | [c] \<Rightarrow> []
                       | c # d # r \<Rightarrow> if c = CR \<and> d = LF then r else d # r))"
  by pat_completeness auto
termination
proof (relation "measure length")
  show "wf (measure length)" by simp
next
  fix s :: pystr
  assume ne: "s \<noteq> []"
  let ?r = "dropWhile (\<lambda>c. \<not> is_linebreak c) s"
  have le: "length ?r \<le> length s" by (rule length_dropWhile_le)
  have "length (case ?r of [] \<Rightarrow> [] | [c] \<Rightarrow> [] | c # d # r \<Rightarrow> if c = CR \<and> d = LF then r else d # r)
          < length s"
  proof (cases ?r)
    case Nil
    show ?thesis unfolding Nil using ne by simp
  next
    case (Cons c t)
    have "length (c # t) \<le> length s" using le unfolding Cons .
    then show ?thesis unfolding Cons by (cases t) auto
  qed
  then show "(case ?r of [] \<Rightarrow> [] | [c] \<Rightarrow> [] | c # d # r \<Rightarrow> if c = CR \<and> d = LF then r else d # r, s)
               \<in> measure length" by simp
qed

declare splitlines.simps [simp del]

section \<open>The outline parser of \<^verbatim>\<open>generate_pitch_deck_outline\<close>\<close>

text \<open>
  A slide is a Python dictionary from strings to strings, a partial map. The exceptions
  the modelled code can raise are values of \<open>exn\<close>; a \<^verbatim>\<open>RuntimeError\<close> carries the
  reason it was raised for instead of its message.
\<close>

type_synonym pydict = "pystr \<rightharpoonup> pystr"

datatype runtime_reason = NotInstalled | NoApiKey | CallFailed | UnexpectedFormat

datatype exn =
  ValueError | RuntimeError runtime_reason | IndexError | KeyError | TypeError | AttributeError
  | OSError

text \<open>
  The \<^verbatim>\<open>for\<close> loop over the lines, with the list \<open>slides\<close> it appends to. Unpacking
  the result of \<^verbatim>\<open>split\<close> into two names raises \<^verbatim>\<open>ValueError\<close> unless the list has exactly
  two elements.
\<close>

fun outline_loop :: "pystr list \<Rightarrow> pydict list \<Rightarrow> exn + pydict list" where
  "outline_loop [] slides = Inr slides"
| "outline_loop (line # lines) slides =
     (if strip line = [] then outline_loop lines slides
      else if DOT \<in> set line then
        (case split1 DOT line of
           [number, rest0] \<Rightarrow>
             (let rest = strip rest0 in
              if COLON \<in> set rest then
                (case split1 COLON rest of
                   [title0, content0] \<Rightarrow>
                     (let title = strip title0;
                          content = lstrip (py ''- '') (strip content0)
                      in outline_loop lines
                           (slides @ [[py ''title'' \<mapsto> title, py ''content'' \<mapsto> content]]))
                 | _ \<Rightarrow> Inl ValueError)
              else outline_loop lines slides)
         | _ \<Rightarrow> Inl ValueError)
      else outline_loop lines slides)"

text \<open>The body of the \<^verbatim>\<open>try\<close>: the loop, then the fallback when nothing was appended.\<close>

definition outline_try :: "pystr \<Rightarrow> exn + pydict list" where
  "outline_try raw =
     (case outline_loop (splitlines raw) [] of
        Inl e \<Rightarrow> Inl e
      | Inr slides \<Rightarrow>
          Inr (if slides = []
               then slides @ [[py ''title'' \<mapsto> py ''Pitch Deck'', py ''content'' \<mapsto> raw]]
               else slides))"

text \<open>
  The parse step as a whole: \<^verbatim>\<open>except Exception\<close> replaces whatever the body raised by the
  fallback slide, and the slides are returned.
\<close>

definition outline_parse :: "pystr \<Rightarrow> pydict list" where
  "outline_parse raw =
     (case outline_try raw of
        Inl e \<Rightarrow> [[py ''title'' \<mapsto> py ''Pitch Deck'', py ''content'' \<mapsto> raw]]
      | Inr slides \<Rightarrow> slides)"

section \<open>The completion client: \<^verbatim>\<open>_ensure_openai\<close> and \<^verbatim>\<open>_chat_completion\<close>\<close>

text \<open>
  The value the service returns, as far as the code looks into it: \<^verbatim>\<open>None\<close>, a string, a
  list, or a dictionary with string keys (an association list, looked up with \<open>map_of\<close>).
\<close>

datatype pyval = PNone | PStr pystr | PList "pyval list" | PDict "(pystr \<times> pyval) list"

text \<open>
  The keyword arguments of \<^verbatim>\<open>openai.ChatCompletion.create\<close>; the temperature \<^verbatim>\<open>0.7\<close> is kept
  as the decimal literal it is written as, mantissa and exponent of ten.
\<close>

record chat_request =
  req_model :: pystr
  req_messages :: "pydict list"
  req_temperature :: "int \<times> int"

text \<open>
  What the code reads and changes outside its arguments: whether \<^verbatim>\<open>import openai\<close>
  succeeded, the value of \<^verbatim>\<open>os.getenv("OPENAI_API_KEY")\<close>, the module attribute
  \<^verbatim>\<open>openai.api_key\<close>, and the requests sent to the service so far, oldest first.
\<close>

record world =
  openai_installed :: bool
  environ_key :: "pystr option"
  openai_api_key :: "pystr option"
  sent :: "chat_request list"

text \<open>
  The service is a parameter: for a request it raises (\<open>Inl\<close>, with a message) or returns
  a completion.
\<close>

type_synonym service = "chat_request \<Rightarrow> pystr + pyval"

text \<open>Truth value of an optional string: \<^verbatim>\<open>None\<close> and the empty string are false.\<close>

definition truthy :: "pystr option \<Rightarrow> bool" where
  "truthy k = (case k of None \<Rightarrow> False | Some s \<Rightarrow> s \<noteq> [])"

definition DEFAULT_MODEL :: pystr where
  "DEFAULT_MODEL = py ''gpt-4''"

text \<open>
  \<^verbatim>\<open>_ensure_openai\<close>. A function returns its result or the exception raised, and the world
  as it is then.
\<close>

definition ensure_openai :: "pystr option \<Rightarrow> world \<Rightarrow> (exn + unit) \<times> world" where
  "ensure_openai api_key w =
     (if \<not> openai_installed w then (Inl (RuntimeError NotInstalled), w)
      else let key = (if truthy api_key then api_key else environ_key w) in
           if \<not> truthy key then (Inl (RuntimeError NoApiKey), w)
           else (Inr (), w\<lparr>openai_api_key := key\<rparr>))"

text \<open>
  \<^verbatim>\<open>v[key]\<close> for a string key, \<^verbatim>\<open>v[i]\<close> for an index that is not negative, and
  \<^verbatim>\<open>v.strip()\<close>, each with the exception Python raises on a value of the wrong kind.
\<close>

fun getitem_key :: "pyval \<Rightarrow> pystr \<Rightarrow> exn + pyval" where
  "getitem_key (PDict kvs) k = (case map_of kvs k of None \<Rightarrow> Inl KeyError | Some v \<Rightarrow> Inr v)"
| "getitem_key _ k = Inl TypeError"

fun getitem_index :: "pyval \<Rightarrow> nat \<Rightarrow> exn + pyval" where
  "getitem_index (PList xs) i = (if i < length xs then Inr (xs ! i) else Inl IndexError)"
| "getitem_index (PStr s) i = (if i < length s then Inr (PStr [s ! i]) else Inl IndexError)"
| "getitem_index (PDict kvs) i = Inl KeyError"
| "getitem_index PNone i = Inl TypeError"

fun strip_method :: "pyval \<Rightarrow> exn + pystr" where
  "strip_method (PStr s) = Inr (strip s)"
| "strip_method _ = Inl AttributeError"

text \<open>The expression \<^verbatim>\<open>completion["choices"][0]["message"]["content"].strip()\<close>.\<close>

definition reply_content :: "pyval \<Rightarrow> exn + pystr" where
  "reply_content completion =
     (case getitem_key completion (py ''choices'') of
        Inl e \<Rightarrow> Inl e
      | Inr choices \<Rightarrow>
          (case getitem_index choices 0 of
             Inl e \<Rightarrow> Inl e
           | Inr choice \<Rightarrow>
               (case getitem_key choice (py ''message'') of
                  Inl e \<Rightarrow> Inl e
                | Inr message \<Rightarrow>
                    (case getitem_key message (py ''content'') of
                       Inl e \<Rightarrow> Inl e
                     | Inr content \<Rightarrow> strip_method content))))"

text \<open>
  \<^verbatim>\<open>_chat_completion\<close>: the request is recorded in \<open>sent\<close> when the call to the service is
  made; both \<^verbatim>\<open>except Exception\<close> clauses turn whatever was raised into a \<^verbatim>\<open>RuntimeError\<close>.
\<close>

definition chat_completion ::
  "service \<Rightarrow> pystr \<Rightarrow> pystr option \<Rightarrow> pystr \<Rightarrow> world \<Rightarrow> (exn + pystr) \<times> world" where
  "chat_completion svc prompt api_key model w =
     (case ensure_openai api_key w of
        (Inl e, w1) \<Rightarrow> (Inl e, w1)
      | (Inr u, w1) \<Rightarrow>
          (let request = \<lparr>req_model = model,
                 req_messages =
                   [[py ''role'' \<mapsto> py ''system'',
                     py ''content'' \<mapsto> py ''You are an expert startup consultant.''],
                    [py ''role'' \<mapsto> py ''user'', py ''content'' \<mapsto> prompt]],
                 req_temperature = (7, - 1)\<rparr>;
               w2 = w1\<lparr>sent := sent w1 @ [request]\<rparr>
           in case svc request of
                Inl exc \<Rightarrow> (Inl (RuntimeError CallFailed), w2)
              | Inr completion \<Rightarrow>
                  (case reply_content completion of
                     Inl exc \<Rightarrow> (Inl (RuntimeError UnexpectedFormat), w2)
                   | Inr reply \<Rightarrow> (Inr reply, w2))))"

text \<open>
  The prompt of \<^verbatim>\<open>generate_pitch_deck_outline\<close>; U+2011 and U+2013 are written as code points.
\<close>

definition outline_prompt :: "pystr \<Rightarrow> pystr" where
  "outline_prompt idea =
     py ''You are an expert pitch deck designer. Create an outline for a 10'' @ [8209] @ py ''slide ''
     @ py ''pitch deck for the startup idea below. Follow this structure: (1) ''
     @ py ''Business Overview, (2) Problem, (3) Solution & Value Proposition, ''
     @ py ''(4) Market Size & Analysis, (5) Product & Business Model, (6) Go'' @ [8209] @ py ''to''
     @ [8209] @ py ''Market ''
     @ py ''Strategy, (7) Competitive Analysis, (8) Team, (9) Financials & Traction, ''
     @ py ''(10) Ask & Use of Funds. For each slide, provide a title and 3'' @ [8211] @ py ''5 bullet ''
     @ py ''points summarising the key messages you would include on that slide.\<newline>\<newline>''
     @ py ''Business idea: '' @ idea @ py ''\<newline>\<newline>''
     @ py ''Respond in a structured format. Use numbered slides followed by the title and its bullet points.''"

text \<open>
  \<^verbatim>\<open>generate_pitch_deck_outline\<close>: the completion is requested outside the \<^verbatim>\<open>try\<close>, so its
  error is raised to the caller; the reply is then parsed.
\<close>

definition generate_pitch_deck_outline ::
  "service \<Rightarrow> pystr \<Rightarrow> pystr option \<Rightarrow> world \<Rightarrow> (exn + pydict list) \<times> world" where
  "generate_pitch_deck_outline svc idea api_key w =
     (case chat_completion svc (outline_prompt idea) api_key DEFAULT_MODEL w of
        (Inl e, w') \<Rightarrow> (Inl e, w')
      | (Inr raw, w') \<Rightarrow> (Inr (outline_parse raw), w'))"

section \<open>The deck assembler: \<^verbatim>\<open>create_pitch_deck\<close>\<close>

abbreviation SEMICOLON :: codepoint where "SEMICOLON \<equiv> 59"

text \<open>
  \<^verbatim>\<open>s.replace(old, new)\<close> and \<^verbatim>\<open>s.split(sep)\<close> for strings of one character, and
  \<^verbatim>\<open>d.get(key, default)\<close>.
\<close>

definition replace_char :: "codepoint \<Rightarrow> codepoint \<Rightarrow> pystr \<Rightarrow> pystr" where
  "replace_char old new s = map (\<lambda>c. if c = old then new else c) s"

fun split_all :: "codepoint \<Rightarrow> pystr \<Rightarrow> pystr list" where
  "split_all sep [] = [[]]"
| "split_all sep (c # cs) =
     (if c = sep then [] # split_all sep cs
      else (case split_all sep cs of [] \<Rightarrow> [[c]] | piece # pieces \<Rightarrow> (c # piece) # pieces))"

definition dict_get :: "pydict \<Rightarrow> pystr \<Rightarrow> pystr \<Rightarrow> pystr" where
  "dict_get d key dflt = (case d key of None \<Rightarrow> dflt | Some v \<Rightarrow> v)"

text \<open>
  The part of a presentation the code touches. A paragraph has a text and a level; a
  placeholder has its index (0 for the title), its type and the paragraphs of its text
  frame; a slide is the list of its placeholders, in the order \<^verbatim>\<open>slide.placeholders\<close> yields
  them; a presentation is the list of its slides.
\<close>

record par =
  p_text :: pystr
  p_level :: nat

record placeholder =
  ph_idx :: nat
  ph_is_placeholder :: bool
  ph_type :: nat
  ph_paragraphs :: "par list"

type_synonym slide = "placeholder list"
type_synonym presentation = "slide list"

text \<open>
  The library is a parameter: the slide layouts of the default template, each given as the
  placeholders of a slide newly added from it, and the paths \<^verbatim>\<open>save\<close> can write to.
\<close>

record pptx =
  slide_layouts :: "slide list"
  can_save :: "pystr \<Rightarrow> bool"

text \<open>
  Assigning the text of a shape replaces its paragraphs by one paragraph for each piece of
  the text between line feeds. \<^verbatim>\<open>slide.shapes.title\<close> is the first placeholder of index 0,
  and \<^verbatim>\<open>None\<close> when there is none.
\<close>

definition text_paragraphs :: "pystr \<Rightarrow> par list" where
  "text_paragraphs t = map (\<lambda>piece. \<lparr>p_text = piece, p_level = 0\<rparr>) (split_all LF t)"

fun set_title_text :: "pystr \<Rightarrow> slide \<Rightarrow> slide" where
  "set_title_text title [] = []"
| "set_title_text title (shape # shapes) =
     (if ph_idx shape = 0 then shape\<lparr>ph_paragraphs := text_paragraphs title\<rparr> # shapes
      else shape # set_title_text title shapes)"

text \<open>
  \<^verbatim>\<open>text_frame.clear()\<close> leaves one paragraph, the first one emptied of its text.
\<close>

definition cleared_paragraph :: "par list \<Rightarrow> par" where
  "cleared_paragraph ps =
     (case ps of [] \<Rightarrow> \<lparr>p_text = [], p_level = 0\<rparr> | p # rest \<Rightarrow> p\<lparr>p_text := []\<rparr>)"

text \<open>The list comprehension that cuts the content into bullet lines.\<close>

definition body_lines :: "pystr \<Rightarrow> pystr list" where
  "body_lines content =
     map strip (filter (\<lambda>line. strip line \<noteq> []) (split_all LF (replace_char SEMICOLON LF content)))"

text \<open>
  The body of the \<^verbatim>\<open>if\<close> inside the loop over the placeholders, up to its
  \<^verbatim>\<open>break\<close>, and that loop: only the first placeholder that passes the test is changed.
\<close>

definition fill_body :: "pystr \<Rightarrow> placeholder \<Rightarrow> placeholder" where
  "fill_body content shape =
     (let p = cleared_paragraph (ph_paragraphs shape) in
      case body_lines content of
        [] \<Rightarrow> shape\<lparr>ph_paragraphs := [p]\<rparr>
      | first # others \<Rightarrow>
          (let paragraphs = p\<lparr>p_text := first\<rparr> # map (\<lambda>line. \<lparr>p_text = line, p_level = 0\<rparr>) others
           in shape\<lparr>ph_paragraphs := map (\<lambda>q. q\<lparr>p_level := 0\<rparr>) paragraphs\<rparr>))"

fun fill_first_body :: "pystr \<Rightarrow> slide \<Rightarrow> slide" where
  "fill_first_body content [] = []"
| "fill_first_body content (shape # shapes) =
     (if ph_is_placeholder shape \<and> ph_type shape = 1 then fill_body content shape # shapes
      else shape # fill_first_body content shapes)"

text \<open>
  The loop over \<^verbatim>\<open>enumerate(slides)\<close>; indexing \<^verbatim>\<open>prs.slide_layouts\<close> out of range raises
  \<^verbatim>\<open>IndexError\<close>.
\<close>

fun add_slides :: "slide list \<Rightarrow> nat \<Rightarrow> pydict list \<Rightarrow> presentation \<Rightarrow> exn + presentation" where
  "add_slides layouts index [] prs = Inr prs"
| "add_slides layouts index (slide_data # remaining) prs =
     (let title = dict_get slide_data (py ''title'') [];
          content = dict_get slide_data (py ''content'') [];
          k = (if index = 0 then 0 else 1)
      in if k < length layouts
         then add_slides layouts (index + 1) remaining
                (prs @ [fill_first_body content (set_title_text title (layouts ! k))])
         else Inl IndexError)"

text \<open>
  \<^verbatim>\<open>create_pitch_deck\<close>, with the files on disk as a map from paths to presentations.
\<close>

definition create_pitch_deck ::
  "pptx \<Rightarrow> pydict list \<Rightarrow> pystr \<Rightarrow> (pystr \<rightharpoonup> presentation)
     \<Rightarrow> (exn + unit) \<times> (pystr \<rightharpoonup> presentation)" where
  "create_pitch_deck lib slides output_path files =
     (if slides = [] then (Inl ValueError, files)
      else case add_slides (slide_layouts lib) 0 slides [] of
             Inl e \<Rightarrow> (Inl e, files)
           | Inr prs \<Rightarrow>
               if can_save lib output_path then (Inr (), files(output_path \<mapsto> prs))
               else (Inl OSError, files))"

section \<open>Vocabulary of the statements\<close>

text \<open>
  The text before the first occurrence of a character, and the text after it.
\<close>

definition before_first :: "codepoint \<Rightarrow> pystr \<Rightarrow> pystr" where
  "before_first c s = takeWhile (\<lambda>x. x \<noteq> c) s"

definition after_first :: "codepoint \<Rightarrow> pystr \<Rightarrow> pystr" where
  "after_first c s = tl (dropWhile (\<lambda>x. x \<noteq> c) s)"

text \<open>
  A line has the expected shape when it holds a \<open>.\<close> and, after the first \<open>.\<close>, a \<open>:\<close>.
  \<open>slide_of\<close> is the dictionary the loop is shown to append for such a line.
\<close>

definition has_shape :: "pystr \<Rightarrow> bool" where
  "has_shape line = (DOT \<in> set line \<and> COLON \<in> set (after_first DOT line))"

definition slide_of :: "pystr \<Rightarrow> pydict" where
  "slide_of line =
     [py ''title'' \<mapsto> strip (before_first COLON (after_first DOT line)),
      py ''content'' \<mapsto> lstrip (py ''- '') (strip (after_first COLON (after_first DOT line)))]"

text \<open>
  A well-formed line, \<^verbatim>\<open><n>. <title>: <bullets>\<close>: decimal digits, at least one, then a
  \<open>.\<close>, then text that holds a \<open>:\<close>.
\<close>

definition is_digit :: "codepoint \<Rightarrow> bool" where
  "is_digit c = (48 \<le> c \<and> c \<le> 57)"

definition well_formed :: "pystr \<Rightarrow> bool" where
  "well_formed line =
     (takeWhile is_digit line \<noteq> [] \<and>
      (case dropWhile is_digit line of [] \<Rightarrow> False | c # r \<Rightarrow> c = DOT \<and> COLON \<in> set r))"



section \<open>Facts about the string operations\<close>

lemma split1_present: "sep \<in> set s \<Longrightarrow> split1 sep s = [before_first sep s, after_first sep s]"
  by (simp add: split1_def before_first_def after_first_def)

lemma split_at_first: "c \<in> set s \<Longrightarrow> s = before_first c s @ c # after_first c s"
proof -
  assume "c \<in> set s"
  then have "dropWhile (\<lambda>x. x \<noteq> c) s \<noteq> []" by simp
  then have "dropWhile (\<lambda>x. x \<noteq> c) s = c # after_first c s"
    using hd_dropWhile[of "\<lambda>x. x \<noteq> c" s] by (cases "dropWhile (\<lambda>x. x \<noteq> c) s") (auto simp: after_first_def)
  then show ?thesis
    using takeWhile_dropWhile_id[of "\<lambda>x. x \<noteq> c" s] by (simp add: before_first_def)
qed

lemma before_first_no_sep: "c \<notin> set (before_first c s)"
  using set_takeWhileD[of c "\<lambda>x. x \<noteq> c" s] by (auto simp: before_first_def)

lemma before_first_append: "c \<notin> set a \<Longrightarrow> before_first c (a @ c # b) = a"
proof -
  assume "c \<notin> set a"
  then have "takeWhile (\<lambda>x. x \<noteq> c) a = a" by (auto simp: takeWhile_eq_all_conv)
  then show ?thesis by (simp add: before_first_def takeWhile_tail)
qed

lemma after_first_append: "c \<notin> set a \<Longrightarrow> after_first c (a @ c # b) = b"
proof -
  assume "c \<notin> set a"
  then have "dropWhile (\<lambda>x. x \<noteq> c) a = []" by auto
  then show ?thesis by (simp add: after_first_def dropWhile_append3)
qed

lemma strip_all_space: "\<forall>c\<in>set s. is_space c \<Longrightarrow> strip s = []"
proof -
  assume "\<forall>c\<in>set s. is_space c"
  then have e: "dropWhile is_space s = []" by simp
  show ?thesis unfolding strip_def e by simp
qed

lemma strip_core:
  assumes "\<forall>c\<in>set u. is_space c" "\<forall>c\<in>set v. is_space c" "m \<noteq> []"
    "\<not> is_space (hd m)" "\<not> is_space (last m)"
  shows "strip (u @ m @ v) = m"
proof -
  obtain x m' where m: "m = x # m'" using assms(3) by (cases m) auto
  obtain y m'' where m2: "m = m'' @ [y]" using assms(3) by (cases m rule: rev_cases) auto
  have x: "\<not> is_space x" using assms(4) m by simp
  have y: "\<not> is_space y" using assms(5) m2 by simp
  have "dropWhile is_space (u @ m @ v) = m @ v"
    using assms(1) x by (simp add: m dropWhile_append)
  moreover have "dropWhile is_space (rev (m @ v)) = rev m"
    using assms(2) y by (simp add: m2 dropWhile_append)
  ultimately show ?thesis by (simp add: strip_def)
qed

lemma space_decomp:
  assumes "\<not> (\<forall>c\<in>set s. is_space c)"
  shows "\<exists>u m v. s = u @ m @ v \<and> (\<forall>c\<in>set u. is_space c) \<and> (\<forall>c\<in>set v. is_space c)
            \<and> m \<noteq> [] \<and> \<not> is_space (hd m) \<and> \<not> is_space (last m)"
proof -
  let ?u = "takeWhile is_space s"
  let ?r = "dropWhile is_space s"
  let ?v = "rev (takeWhile is_space (rev ?r))"
  let ?m = "rev (dropWhile is_space (rev ?r))"
  have r_ne: "?r \<noteq> []" using assms by simp
  have hd_r: "\<not> is_space (hd ?r)" using r_ne by (rule hd_dropWhile)
  have "rev ?r = takeWhile is_space (rev ?r) @ dropWhile is_space (rev ?r)" by simp
  then have "rev (rev ?r) = rev (takeWhile is_space (rev ?r) @ dropWhile is_space (rev ?r))" by simp
  then have r_eq: "?r = ?m @ ?v" by (simp del: takeWhile_dropWhile_id)
  have "hd ?r \<in> set (rev ?r)" using r_ne by simp
  then have dm_ne: "dropWhile is_space (rev ?r) \<noteq> []" using hd_r by auto
  then have m_ne: "?m \<noteq> []" by simp
  have last_m: "\<not> is_space (last ?m)"
    using dm_ne hd_dropWhile[of is_space "rev ?r"] by (simp add: last_rev)
  have "hd ?m = hd ?r" using r_eq m_ne by (metis hd_append2)
  then have hd_m: "\<not> is_space (hd ?m)" using hd_r by simp
  have "s = ?u @ ?m @ ?v" using r_eq takeWhile_dropWhile_id[of is_space s] by simp
  moreover have "\<forall>c\<in>set ?u. is_space c" by (auto dest: set_takeWhileD)
  moreover have "\<forall>c\<in>set ?v. is_space c" by (auto dest: set_takeWhileD)
  ultimately show ?thesis using m_ne hd_m last_m by blast
qed

lemma strip_eq_Nil_iff: "strip s = [] \<longleftrightarrow> (\<forall>c\<in>set s. is_space c)"
proof
  assume e: "strip s = []"
  show "\<forall>c\<in>set s. is_space c"
  proof (rule ccontr)
    assume "\<not> (\<forall>c\<in>set s. is_space c)"
    then obtain u m v where "s = u @ m @ v" "\<forall>c\<in>set u. is_space c" "\<forall>c\<in>set v. is_space c"
      "m \<noteq> []" "\<not> is_space (hd m)" "\<not> is_space (last m)"
      using space_decomp by blast
    then have "strip s = m" "m \<noteq> []" using strip_core by auto
    with e show False by simp
  qed
qed (rule strip_all_space)

lemma strip_keeps:
  assumes "c \<in> set s" "\<not> is_space c"
  shows "c \<in> set (strip s)"
proof -
  have "\<not> (\<forall>c\<in>set s. is_space c)" using assms by blast
  then obtain u m v where d: "s = u @ m @ v" "\<forall>c\<in>set u. is_space c" "\<forall>c\<in>set v. is_space c"
      "m \<noteq> []" "\<not> is_space (hd m)" "\<not> is_space (last m)"
    using space_decomp by blast
  then have "strip s = m" using strip_core by auto
  moreover have "c \<in> set m" using assms d by auto
  ultimately show ?thesis by simp
qed

lemma set_strip_subset: "set (strip s) \<subseteq> set s"
proof
  fix c assume "c \<in> set (strip s)"
  then have "c \<in> set (rev (dropWhile is_space s))"
    unfolding strip_def by (auto dest: set_dropWhileD)
  then show "c \<in> set s" by (auto dest: set_dropWhileD)
qed

lemma strip_rstrip: "strip (rev (dropWhile is_space (rev b))) = strip b"
proof (cases "\<forall>c\<in>set b. is_space c")
  case True
  then have e: "dropWhile is_space (rev b) = []" by simp
  have "strip (rev (dropWhile is_space (rev b))) = []" unfolding e by (simp add: strip_def)
  then show ?thesis using True by (simp add: strip_all_space)
next
  case False
  then obtain u m v where d: "b = u @ m @ v" "\<forall>c\<in>set u. is_space c" "\<forall>c\<in>set v. is_space c"
      "m \<noteq> []" "\<not> is_space (hd m)" "\<not> is_space (last m)"
    using space_decomp by blast
  obtain y m'' where m2: "m = m'' @ [y]" using d(4) by (cases m rule: rev_cases) auto
  have y: "\<not> is_space y" using d(6) m2 by simp
  have "dropWhile is_space (rev b) = rev m @ rev u"
    using d(3) y by (simp add: d(1) m2 dropWhile_append)
  then have "rev (dropWhile is_space (rev b)) = u @ m @ []" by simp
  then have "strip (rev (dropWhile is_space (rev b))) = m"
    using strip_core[of u "[]" m] d by simp
  moreover have "strip b = m" using strip_core d by auto
  ultimately show ?thesis by simp
qed

lemma strip_lstrip: "strip (dropWhile is_space a) = strip a"
  by (simp add: strip_def)

lemma strip_around_sep:
  assumes "\<not> is_space c" "c \<notin> set a"
  shows "strip (a @ c # b) = dropWhile is_space a @ c # rev (dropWhile is_space (rev b))"
proof -
  have "dropWhile is_space (a @ c # b) = dropWhile is_space a @ c # b"
    using assms(1) by (simp add: dropWhile_append3)
  moreover have "dropWhile is_space (rev (dropWhile is_space a @ c # b))
      = dropWhile is_space (rev b) @ c # rev (dropWhile is_space a)"
    using assms(1) by (simp add: dropWhile_append3)
  ultimately show ?thesis by (simp add: strip_def)
qed

lemma title_through_strip:
  assumes "c \<in> set r" "\<not> is_space c"
  shows "strip (before_first c (strip r)) = strip (before_first c r)"
    and "strip (after_first c (strip r)) = strip (after_first c r)"
proof -
  let ?a = "before_first c r" and ?b = "after_first c r"
  have r: "r = ?a @ c # ?b" using assms(1) by (rule split_at_first)
  have na: "c \<notin> set ?a" by (rule before_first_no_sep)
  then have na': "c \<notin> set (dropWhile is_space ?a)" by (auto dest: set_dropWhileD)
  have "strip r = dropWhile is_space ?a @ c # rev (dropWhile is_space (rev ?b))"
    using strip_around_sep[OF assms(2) na, of ?b] r by simp
  then have "before_first c (strip r) = dropWhile is_space ?a"
    and "after_first c (strip r) = rev (dropWhile is_space (rev ?b))"
    using na' by (simp_all add: before_first_append after_first_append)
  then show "strip (before_first c (strip r)) = strip ?a"
    and "strip (after_first c (strip r)) = strip ?b"
    by (simp_all add: strip_lstrip strip_rstrip)
qed

section \<open>The loop, one line at a time\<close>

lemma DOT_not_space: "\<not> is_space DOT"
  by (simp add: is_space_def)

lemma COLON_not_space: "\<not> is_space COLON"
  by (simp add: is_space_def)

lemma COLON_in_strip: "COLON \<in> set (strip r) \<longleftrightarrow> COLON \<in> set r"
  using strip_keeps[OF _ COLON_not_space] set_strip_subset by blast

lemma blank_no_shape: "strip l = [] \<Longrightarrow> \<not> has_shape l"
  using DOT_not_space by (auto simp: strip_eq_Nil_iff has_shape_def)

lemma outline_loop_skip: "\<not> has_shape l \<Longrightarrow> outline_loop (l # ls) acc = outline_loop ls acc"
  by (simp add: has_shape_def split1_present COLON_in_strip)

lemma outline_loop_take:
  assumes "has_shape l"
  shows "outline_loop (l # ls) acc = outline_loop ls (acc @ [slide_of l])"
proof -
  let ?r = "after_first DOT l"
  have d: "DOT \<in> set l" and c: "COLON \<in> set ?r" using assms by (simp_all add: has_shape_def)
  have nb: "strip l \<noteq> []" using assms blank_no_shape by blast
  have c': "COLON \<in> set (strip ?r)" using c by (simp add: COLON_in_strip)
  show ?thesis
    using d c' nb
    by (simp add: split1_present slide_of_def title_through_strip[OF c COLON_not_space])
qed

lemma outline_loop_eq: "outline_loop ls acc = Inr (acc @ map slide_of (filter has_shape ls))"
proof (induction ls arbitrary: acc)
  case Nil
  show ?case by simp
next
  case (Cons l ls)
  show ?case
  proof (cases "has_shape l")
    case True
    show ?thesis
      using Cons.IH[of "acc @ [slide_of l]"] True
      by (simp add: outline_loop_take[OF True] del: outline_loop.simps)
  next
    case False
    show ?thesis
      using Cons.IH[of acc] False
      by (simp add: outline_loop_skip[OF False] del: outline_loop.simps)
  qed
qed

lemma outline_try_eq:
  "outline_try raw =
     Inr (if filter has_shape (splitlines raw) = []
          then [[py ''title'' \<mapsto> py ''Pitch Deck'', py ''content'' \<mapsto> raw]]
          else map slide_of (filter has_shape (splitlines raw)))"
  by (simp add: outline_try_def outline_loop_eq)

lemma outline_parse_eq:
  "outline_parse raw =
     (if filter has_shape (splitlines raw) = []
      then [[py ''title'' \<mapsto> py ''Pitch Deck'', py ''content'' \<mapsto> raw]]
      else map slide_of (filter has_shape (splitlines raw)))"
  by (simp add: outline_parse_def outline_try_eq)

section \<open>The lines of a string\<close>

lemma set_after_boundary:
  "set (case r of [] \<Rightarrow> [] | [c] \<Rightarrow> [] | c # d # t \<Rightarrow> if c = CR \<and> d = LF then t else d # t)
     \<subseteq> set (r :: pystr)"
  by (auto split: list.splits)

lemma set_splitlines: "l \<in> set (splitlines s) \<Longrightarrow> set l \<subseteq> set s"
proof (induction s rule: splitlines.induct)
  case (1 s)
  let ?r = "dropWhile (\<lambda>c. \<not> is_linebreak c) s"
  let ?n = "case ?r of [] \<Rightarrow> [] | [c] \<Rightarrow> [] | c # d # r \<Rightarrow> if c = CR \<and> d = LF then r else d # r"
  show ?case
  proof (cases "s = []")
    case True
    with "1.prems" show ?thesis by (simp add: splitlines.simps)
  next
    case False
    have sub: "set ?n \<subseteq> set s"
    proof -
      have "set ?n \<subseteq> set ?r" by (rule set_after_boundary)
      moreover have "set ?r \<subseteq> set s" by (auto dest: set_dropWhileD)
      ultimately show ?thesis by blast
    qed
    have "splitlines s = takeWhile (\<lambda>c. \<not> is_linebreak c) s # splitlines ?n"
      using False by (subst splitlines.simps) simp
    with "1.prems" consider "l = takeWhile (\<lambda>c. \<not> is_linebreak c) s" | "l \<in> set (splitlines ?n)"
      by auto
    then show ?thesis
    proof cases
      case 1
      then show ?thesis by (auto dest: set_takeWhileD)
    next
      case 2
      then have "set l \<subseteq> set ?n" using "1.IH"[OF False] by simp
      with sub show ?thesis by blast
    qed
  qed
qed

lemma splitlines_nonempty: "s \<noteq> [] \<Longrightarrow> splitlines s \<noteq> []"
  by (subst splitlines.simps) simp

lemma has_shape_in_raw:
  assumes "l \<in> set (splitlines raw)" "has_shape l"
  shows "DOT \<in> set raw"
  using assms set_splitlines[of l raw] by (auto simp: has_shape_def)

section \<open>Well-formed lines and counting characters\<close>


lemma well_formed_decomp:
  assumes "well_formed l"
  shows "\<exists>n r. l = n @ DOT # r \<and> n \<noteq> [] \<and> (\<forall>c\<in>set n. is_digit c) \<and> COLON \<in> set r"
proof -
  let ?n = "takeWhile is_digit l" and ?d = "dropWhile is_digit l"
  from assms obtain r where d: "?d = DOT # r" and c: "COLON \<in> set r" and n: "?n \<noteq> []"
    by (auto simp: well_formed_def split: list.splits)
  have "l = ?n @ ?d" by simp
  then have "l = ?n @ DOT # r" using d by simp
  moreover have "\<forall>c\<in>set ?n. is_digit c" by (auto dest: set_takeWhileD)
  ultimately show ?thesis using n c by blast
qed

lemma well_formed_parts:
  assumes "well_formed l"
  shows "has_shape l"
    and "after_first DOT (before_first COLON l) = before_first COLON (after_first DOT l)"
    and "after_first COLON l = after_first COLON (after_first DOT l)"
proof -
  obtain n r where l: "l = n @ DOT # r" and dig: "\<forall>c\<in>set n. is_digit c" and c: "COLON \<in> set r"
    using well_formed_decomp[OF assms] by blast
  have nd: "DOT \<notin> set n" and nc: "COLON \<notin> set n" using dig by (auto simp: is_digit_def)
  have ad: "after_first DOT l = r" using nd by (simp add: l after_first_append)
  show "has_shape l" using c ad by (simp add: has_shape_def l)
  let ?a = "before_first COLON r" and ?b = "after_first COLON r"
  have r: "r = ?a @ COLON # ?b" using c by (rule split_at_first)
  have na: "COLON \<notin> set ?a" by (rule before_first_no_sep)
  have l2: "l = (n @ DOT # ?a) @ COLON # ?b" using l r by simp
  have nc2: "COLON \<notin> set (n @ DOT # ?a)" using nc na by simp
  have "before_first COLON l = n @ DOT # ?a"
    using before_first_append[OF nc2, of ?b] l2 by simp
  then show "after_first DOT (before_first COLON l) = before_first COLON (after_first DOT l)"
    using nd by (simp add: ad after_first_append)
  have "after_first COLON l = ?b" using after_first_append[OF nc2, of ?b] l2 by simp
  then show "after_first COLON l = after_first COLON (after_first DOT l)" by (simp add: ad)
qed

lemma count_list_dropWhile: "\<not> P c \<Longrightarrow> count_list (dropWhile P s) c = count_list s c"
  by (induction s) auto

lemma count_list_strip: "\<not> is_space c \<Longrightarrow> count_list (strip s) c = count_list s c"
  by (simp add: strip_def count_list_dropWhile)

lemma count_list_lstrip: "c \<notin> set chars \<Longrightarrow> count_list (lstrip chars s) c = count_list s c"
  by (simp add: lstrip_def count_list_dropWhile)

lemma count_list_at_first:
  assumes "c \<in> set s"
  shows "count_list s c = Suc (count_list (after_first c s) c)"
proof -
  have "s = before_first c s @ c # after_first c s" using assms by (rule split_at_first)
  then have "count_list s c = count_list (before_first c s @ c # after_first c s) c" by simp
  then show ?thesis using before_first_no_sep[of c s] by simp
qed

section \<open>Facts about the client and the assembler\<close>

lemma chat_completion_sends:
  assumes "openai_installed w" and "api_key = Some k" and "k \<noteq> []"
  shows "sent (snd (chat_completion svc prompt api_key model w)) \<noteq> sent w"
  using assms by (auto simp: chat_completion_def ensure_openai_def truthy_def Let_def split: sum.splits)





section \<open>The claims about the outline parser\<close>

text \<open>
  Claim C1. For every input string, the parse step raises nothing (the body of the \<^verbatim>\<open>try\<close>
  itself returns, and what it returns is the result) and the list of slides it returns is
  never empty: when the loop appended no slide, the result is the single fallback slide,
  whose content is the raw text.
\<close>

theorem outline_parse_never_empty:
  "(\<exists>slides. outline_try raw = Inr slides \<and> outline_parse raw = slides)
   \<and> outline_parse raw \<noteq> []
   \<and> (outline_loop (splitlines raw) [] = Inr [] \<longrightarrow>
        outline_parse raw = [[py ''title'' \<mapsto> py ''Pitch Deck'', py ''content'' \<mapsto> raw]])"
  by (simp add: outline_parse_def outline_try_eq outline_loop_eq)

theorem outline_parse_never_empty_witness:
  "outline_loop (splitlines (py ''no outline here'')) [] = Inr []
   \<and> outline_parse (py ''no outline here'')
       = [[py ''title'' \<mapsto> py ''Pitch Deck'', py ''content'' \<mapsto> py ''no outline here'']]"
  using outline_parse_never_empty[of "py ''no outline here''"]
  by (simp add: splitlines.simps py_def split1_def strip_def is_space_def is_linebreak_def)

text \<open>
  Claim C2. When the input is empty, or made of white space only, or has no line holding
  both a \<open>.\<close> and a \<open>:\<close> after the first \<open>.\<close>, the parse step returns exactly one
  slide, titled "Pitch Deck", whose content is the raw input unchanged.
\<close>

theorem outline_parse_fallback:
  assumes "raw = [] \<or> (\<forall>c\<in>set raw. is_space c) \<or> (\<forall>l\<in>set (splitlines raw). \<not> has_shape l)"
  shows "outline_parse raw = [[py ''title'' \<mapsto> py ''Pitch Deck'', py ''content'' \<mapsto> raw]]"
proof -
  have "\<forall>l\<in>set (splitlines raw). \<not> has_shape l"
  proof
    fix l assume l: "l \<in> set (splitlines raw)"
    show "\<not> has_shape l"
    proof
      assume h: "has_shape l"
      then have "DOT \<in> set raw" using l has_shape_in_raw by blast
      moreover have "\<not> is_space DOT" by (rule DOT_not_space)
      ultimately show False using assms l h by auto
    qed
  qed
  then have "filter has_shape (splitlines raw) = []" by (simp add: filter_empty_conv)
  then show ?thesis by (simp add: outline_parse_eq)
qed

theorem outline_parse_fallback_witness:
  "outline_parse [] = [[py ''title'' \<mapsto> py ''Pitch Deck'', py ''content'' \<mapsto> []]]
   \<and> outline_parse (py '' \<newline>  '')
        = [[py ''title'' \<mapsto> py ''Pitch Deck'', py ''content'' \<mapsto> py '' \<newline>  '']]
   \<and> outline_parse (py ''Slide one stuff\<newline>more stuff'')
        = [[py ''title'' \<mapsto> py ''Pitch Deck'', py ''content'' \<mapsto> py ''Slide one stuff\<newline>more stuff'']]"
proof -
  have a: "\<forall>c\<in>set (py '' \<newline>  ''). is_space c" by (simp add: py_def is_space_def)
  have b: "\<forall>l\<in>set (splitlines (py ''Slide one stuff\<newline>more stuff'')). \<not> has_shape l"
    by (simp add: splitlines.simps py_def is_linebreak_def has_shape_def)
  show ?thesis
    using outline_parse_fallback[of "[]"] outline_parse_fallback[of "py '' \<newline>  ''"]
      outline_parse_fallback[of "py ''Slide one stuff\<newline>more stuff''"] a b
    by simp
qed

text \<open>
  Claim C3 says that the content of a slide parsed from a well-formed line is exactly the
  trimmed text after the first \<open>:\<close>. On the well-formed line
  \<^verbatim>\<open>1. Problem: - customers lack X; they waste Y\<close> that text starts with a dash, and the slide's
  content does not: the leading bullet marker is removed.
\<close>

theorem outline_parse_bullet_marker:
  "well_formed (py ''1. Problem: - customers lack X; they waste Y'')
   \<and> strip (after_first COLON (py ''1. Problem: - customers lack X; they waste Y''))
        = py ''- customers lack X; they waste Y''
   \<and> outline_parse (py ''1. Problem: - customers lack X; they waste Y'')
        = [[py ''title'' \<mapsto> py ''Problem'', py ''content'' \<mapsto> py ''customers lack X; they waste Y'']]"
  by (simp add: outline_parse_def outline_try_def splitlines.simps py_def split1_def strip_def
      lstrip_def is_space_def is_linebreak_def well_formed_def is_digit_def after_first_def)

text \<open>
  Claim C3, amended. For every non-empty input whose lines are all well-formed, the parse
  step returns one slide per line, in the order of the lines; the title is the trimmed
  text between the first \<open>.\<close> and the first \<open>:\<close> of the line, and the content is the
  trimmed text after that first \<open>:\<close> with every leading dash and space removed.
\<close>

theorem outline_parse_well_formed:
  assumes "raw \<noteq> []" and "\<forall>l\<in>set (splitlines raw). well_formed l"
  shows "outline_parse raw =
           map (\<lambda>l. [py ''title'' \<mapsto> strip (after_first DOT (before_first COLON l)),
                     py ''content'' \<mapsto> lstrip (py ''- '') (strip (after_first COLON l))])
               (splitlines raw)"
proof -
  have all: "\<forall>l\<in>set (splitlines raw). has_shape l" using assms(2) well_formed_parts(1) by blast
  then have f: "filter has_shape (splitlines raw) = splitlines raw" by simp
  have ne: "splitlines raw \<noteq> []" using assms(1) by (rule splitlines_nonempty)
  have "outline_parse raw = map slide_of (splitlines raw)"
    using f ne by (simp add: outline_parse_eq)
  also have "\<dots> = map (\<lambda>l. [py ''title'' \<mapsto> strip (after_first DOT (before_first COLON l)),
                     py ''content'' \<mapsto> lstrip (py ''- '') (strip (after_first COLON l))])
               (splitlines raw)"
  proof (rule map_cong[OF refl])
    fix l assume "l \<in> set (splitlines raw)"
    then have w: "well_formed l" using assms(2) by blast
    show "slide_of l = [py ''title'' \<mapsto> strip (after_first DOT (before_first COLON l)),
                     py ''content'' \<mapsto> lstrip (py ''- '') (strip (after_first COLON l))]"
      by (simp add: slide_of_def well_formed_parts(2,3)[OF w])
  qed
  finally show ?thesis .
qed

theorem outline_parse_well_formed_witness:
  "outline_parse (py ''1. Problem: customers lack X; they waste Y\<newline>2. Solution: - we fix it'')
     = [[py ''title'' \<mapsto> py ''Problem'', py ''content'' \<mapsto> py ''customers lack X; they waste Y''],
        [py ''title'' \<mapsto> py ''Solution'', py ''content'' \<mapsto> py ''we fix it'']]"
proof -
  let ?raw = "py ''1. Problem: customers lack X; they waste Y\<newline>2. Solution: - we fix it''"
  have s: "splitlines ?raw = [py ''1. Problem: customers lack X; they waste Y'', py ''2. Solution: - we fix it'']"
    by (simp add: splitlines.simps py_def is_linebreak_def)
  have a: "?raw \<noteq> []" by (simp add: py_def)
  have b: "\<forall>l\<in>set (splitlines ?raw). well_formed l"
    unfolding s by (simp add: well_formed_def is_digit_def py_def)
  show ?thesis
    unfolding outline_parse_well_formed[OF a b] s
    by (simp add: py_def before_first_def after_first_def strip_def lstrip_def is_space_def)
qed

text \<open>
  Claim C4. A line without a \<open>.\<close>, or without a \<open>:\<close> after its first \<open>.\<close>,
  adds no slide: when some other line has the expected shape, the body of the \<^verbatim>\<open>try\<close>
  returns what the loop returns on the lines without that line, and the slides returned
  are those of the lines of the expected shape, in order. (Nothing here needs the skipped
  line to be non-blank.)
\<close>

theorem outline_parse_skips_line:
  assumes "splitlines raw = pre @ bad # post"
    and "DOT \<notin> set bad \<or> COLON \<notin> set (after_first DOT bad)"
    and "\<exists>l\<in>set (pre @ post). has_shape l"
  shows "outline_try raw = outline_loop (pre @ post) []
         \<and> outline_parse raw = map slide_of (filter has_shape (pre @ post))"
proof -
  have nb: "\<not> has_shape bad" using assms(2) by (auto simp: has_shape_def)
  have f: "filter has_shape (splitlines raw) = filter has_shape (pre @ post)"
    using nb by (simp add: assms(1))
  have ne: "filter has_shape (pre @ post) \<noteq> []" using assms(3) by (auto simp: filter_empty_conv)
  show ?thesis using f ne by (simp add: outline_parse_eq outline_try_eq outline_loop_eq)
qed

theorem outline_parse_skips_line_witness:
  "outline_try (py ''Here is the deck\<newline>1. Team: us'') = outline_loop ([] @ [py ''1. Team: us'']) []
   \<and> outline_parse (py ''Here is the deck\<newline>1. Team: us'')
       = [[py ''title'' \<mapsto> py ''Team'', py ''content'' \<mapsto> py ''us'']]"
proof -
  let ?raw = "py ''Here is the deck\<newline>1. Team: us''"
  have s: "splitlines ?raw = [] @ py ''Here is the deck'' # [py ''1. Team: us'']"
    by (simp add: splitlines.simps py_def is_linebreak_def)
  have b: "DOT \<notin> set (py ''Here is the deck'') \<or> COLON \<notin> set (after_first DOT (py ''Here is the deck''))"
    by (simp add: py_def)
  have h: "has_shape (py ''1. Team: us'')" by (simp add: has_shape_def after_first_def py_def)
  then have c: "\<exists>l\<in>set ([] @ [py ''1. Team: us'']). has_shape l" by simp
  have v: "slide_of (py ''1. Team: us'') = [py ''title'' \<mapsto> py ''Team'', py ''content'' \<mapsto> py ''us'']"
    by (simp add: slide_of_def py_def before_first_def after_first_def strip_def lstrip_def is_space_def)
  show ?thesis using outline_parse_skips_line[OF s b c] h v by simp
qed

text \<open>
  Claim C5. For every line whose text after the first \<open>.\<close> holds more than one \<open>:\<close>,
  the loop appends one slide; its title is the trimmed text before the first of these
  colons and holds no colon, and its content is made from the text after that first colon
  and keeps every other colon.
\<close>

theorem outline_loop_first_colon:
  assumes "DOT \<in> set l" and "1 < count_list (after_first DOT l) COLON"
  shows "\<exists>title content.
           outline_loop (l # ls) slides
             = outline_loop ls (slides @ [[py ''title'' \<mapsto> title, py ''content'' \<mapsto> content]])
           \<and> title = strip (before_first COLON (after_first DOT l))
           \<and> COLON \<notin> set title
           \<and> content = lstrip (py ''- '') (strip (after_first COLON (after_first DOT l)))
           \<and> count_list content COLON = count_list (after_first DOT l) COLON - 1"
proof -
  let ?r = "after_first DOT l"
  have c: "COLON \<in> set ?r" using assms(2) count_list_0_iff[of ?r COLON] by auto
  then have h: "has_shape l" using assms(1) by (simp add: has_shape_def)
  have t: "COLON \<notin> set (strip (before_first COLON ?r))"
    using before_first_no_sep[of COLON ?r] set_strip_subset by blast
  have "COLON \<notin> set (py ''- '')" by (simp add: py_def)
  then have "count_list (lstrip (py ''- '') (strip (after_first COLON ?r))) COLON
               = count_list (after_first COLON ?r) COLON"
    by (simp add: count_list_lstrip count_list_strip COLON_not_space)
  also have "\<dots> = count_list ?r COLON - 1" using count_list_at_first[OF c] by simp
  finally show ?thesis using outline_loop_take[OF h, of ls slides] t by (simp add: slide_of_def)
qed

theorem outline_loop_first_colon_witness:
  "outline_loop [py ''3. Ask: raise: 2M: now''] []
     = Inr [[py ''title'' \<mapsto> py ''Ask'', py ''content'' \<mapsto> py ''raise: 2M: now'']]
   \<and> count_list (py ''raise: 2M: now'') COLON = 2"
proof -
  let ?l = "py ''3. Ask: raise: 2M: now''"
  have d: "DOT \<in> set ?l" by (simp add: py_def)
  have c: "1 < count_list (after_first DOT ?l) COLON" by (simp add: py_def after_first_def)
  show ?thesis
    using outline_loop_first_colon[OF d c, of "[]" "[]"]
    by (simp add: py_def before_first_def after_first_def strip_def lstrip_def is_space_def)
qed

text \<open>
  Claim C6. For every parsed line with a second \<open>.\<close> before the \<open>:\<close> that separates
  title and content, the line is cut at its first \<open>.\<close> only: what precedes it holds no
  \<open>.\<close>, title and content are made from all the text that follows it, and every later
  \<open>.\<close> before the separator stays in the title.
\<close>

theorem outline_loop_first_dot:
  assumes "DOT \<in> set l" and "COLON \<in> set (after_first DOT l)"
    and "DOT \<in> set (before_first COLON (after_first DOT l))"
  shows "l = before_first DOT l @ DOT # after_first DOT l
         \<and> DOT \<notin> set (before_first DOT l)
         \<and> (\<exists>title content.
               outline_loop (l # ls) slides
                 = outline_loop ls (slides @ [[py ''title'' \<mapsto> title, py ''content'' \<mapsto> content]])
               \<and> title = strip (before_first COLON (after_first DOT l))
               \<and> content = lstrip (py ''- '') (strip (after_first COLON (after_first DOT l)))
               \<and> count_list title DOT = count_list (before_first COLON (after_first DOT l)) DOT
               \<and> DOT \<in> set title)"
proof -
  have h: "has_shape l" using assms(1,2) by (simp add: has_shape_def)
  have k: "DOT \<in> set (strip (before_first COLON (after_first DOT l)))"
    using assms(3) DOT_not_space by (rule strip_keeps)
  show ?thesis
    using split_at_first[OF assms(1)] before_first_no_sep[of DOT l]
      outline_loop_take[OF h, of ls slides] k
    by (simp add: slide_of_def count_list_strip DOT_not_space)
qed

theorem outline_loop_first_dot_witness:
  "outline_loop [py ''10.5. Title: body''] []
     = Inr [[py ''title'' \<mapsto> py ''5. Title'', py ''content'' \<mapsto> py ''body'']]"
proof -
  let ?l = "py ''10.5. Title: body''"
  have d: "DOT \<in> set ?l" by (simp add: py_def)
  have c: "COLON \<in> set (after_first DOT ?l)" by (simp add: py_def after_first_def)
  have e: "DOT \<in> set (before_first COLON (after_first DOT ?l))"
    by (simp add: py_def after_first_def before_first_def)
  show ?thesis
    using outline_loop_first_dot[OF d c e, of "[]" "[]"]
    by (simp add: py_def before_first_def after_first_def strip_def lstrip_def is_space_def)
qed




section \<open>The claims about the completion client and the deck assembler\<close>

text \<open>
  Claim C9. When the \<^verbatim>\<open>openai\<close> package is absent, or no API key is given either as
  argument or in the environment (\<^verbatim>\<open>None\<close> or the empty string), \<^verbatim>\<open>_chat_completion\<close> raises
  a \<^verbatim>\<open>RuntimeError\<close> and leaves the world as it was: no request has been sent.
\<close>

theorem chat_completion_configuration_error:
  assumes "\<not> openai_installed w
           \<or> ((api_key = None \<or> api_key = Some []) \<and> (environ_key w = None \<or> environ_key w = Some []))"
  shows "chat_completion svc prompt api_key model w
           = (Inl (RuntimeError (if openai_installed w then NoApiKey else NotInstalled)), w)
         \<and> sent (snd (chat_completion svc prompt api_key model w)) = sent w"
  using assms by (auto simp: chat_completion_def ensure_openai_def truthy_def)

theorem chat_completion_configuration_error_witness:
  "chat_completion (\<lambda>r. Inr PNone) (py ''hi'') None DEFAULT_MODEL
       \<lparr>openai_installed = True, environ_key = None, openai_api_key = None, sent = []\<rparr>
     = (Inl (RuntimeError NoApiKey),
        \<lparr>openai_installed = True, environ_key = None, openai_api_key = None, sent = []\<rparr>)
   \<and> chat_completion (\<lambda>r. Inr PNone) (py ''hi'') (Some (py ''sk-1'')) DEFAULT_MODEL
       \<lparr>openai_installed = False, environ_key = None, openai_api_key = None, sent = []\<rparr>
     = (Inl (RuntimeError NotInstalled),
        \<lparr>openai_installed = False, environ_key = None, openai_api_key = None, sent = []\<rparr>)"
  using chat_completion_configuration_error[of
          "\<lparr>openai_installed = True, environ_key = None, openai_api_key = None, sent = []\<rparr>"
          None "\<lambda>r. Inr PNone" "py ''hi''" DEFAULT_MODEL]
        chat_completion_configuration_error[of
          "\<lparr>openai_installed = False, environ_key = None, openai_api_key = None, sent = []\<rparr>"
          "Some (py ''sk-1'')" "\<lambda>r. Inr PNone" "py ''hi''" DEFAULT_MODEL]
  by simp

text \<open>
  Claim C7. Called with the empty list of slides, \<^verbatim>\<open>create_pitch_deck\<close> raises
  \<^verbatim>\<open>ValueError\<close> and writes no file.
\<close>

theorem create_pitch_deck_empty:
  "create_pitch_deck lib [] output_path files = (Inl ValueError, files)"
  by (simp add: create_pitch_deck_def)



end
